theory Spec2Isabelle
  imports Main
begin

section \<open>Data model of the bridge listener (script.py)\<close>

text \<open>
  Exceptions of the script that the claims depend on. \<open>BlockNotFound\<close> and \<open>Timeout\<close>
  are the two failures \<open>scan_blocks\<close> names; \<open>RpcError\<close> stands for any other exception
  of an RPC call; \<open>TypeError\<close> is Python's \<open>None + 1\<close>; \<open>ValueError\<close> is what
  \<open>time.sleep\<close> raises on a negative argument.
\<close>

datatype error = BlockNotFound | Timeout | RpcError | TypeError | ValueError

text \<open>The three integer settings of \<open>ConfigManager\<close> that the main loop reads.\<close>

record config =
  confirmations_required :: int
  scan_batch_size :: int
  poll_interval_seconds :: int

text \<open>
  A decoded \<open>TokensLocked\<close> log entry: \<open>transactionHash\<close> is the hex string that the
  loop uses as the key of the processed set, \<open>blockNumber\<close> the source block height.
\<close>

record event =
  transactionHash :: string
  blockNumber :: int
  recipient :: string
  amount :: int

text \<open>
  What \<open>_save_state\<close> meets when it writes the state file: the write succeeds, \<open>open\<close>
  raises \<open>IOError\<close> (the old file stays), or \<open>json.dump\<close> raises \<open>IOError\<close> after
  \<open>open(..., 'w')\<close> has truncated the file.
\<close>

datatype write_result = Written | OpenFailed | DumpFailed

text \<open>
  The outside world as one loop iteration sees it: the value of
  \<open>w3_source.eth.block_number\<close>, the log read behind \<open>create_filter\<close> and
  \<open>get_all_entries\<close> for a block range, whether building and signing the mint
  transaction raises (it may depend on the events handed over before), and the
  outcome of the state-file write.
\<close>

record env =
  block_number :: "error + int"
  get_all_entries :: "int \<Rightarrow> int \<Rightarrow> error + event list"
  sign_mint :: "event list \<Rightarrow> event \<Rightarrow> error option"
  dump :: write_result

text \<open>
  The orchestrator's mutable state: \<open>self.state['last_processed_block']\<close>,
  \<open>self.processed_transactions\<close>, the content of the state file (\<open>None\<close>: absent or
  unreadable), and four logs of the effects: the ranges handed to \<open>scan_blocks\<close>, the
  ranges read from the ledger, the events handed to \<open>process_lock_event\<close>, and the
  arguments of the completed \<open>time.sleep\<close> calls.
\<close>

record orchestrator =
  last_processed_block :: "int option"
  processed_transactions :: "string set"
  state_file :: "(int option \<times> string set) option"
  scan_calls :: "(int \<times> int) list"
  filter_reads :: "(int \<times> int) list"
  submitted :: "event list"
  slept :: "int list"

type_synonym outcome = "(error \<times> orchestrator) + orchestrator"

section \<open>Operations\<close>

text \<open>
  \<open>EventScanner.scan_blocks\<close> (lines 133-154). The second component is the log of
  ledger reads, extended when the filter is created and read. Every exception is
  caught and turned into the empty list.
\<close>

definition scan_blocks ::
  "(int \<Rightarrow> int \<Rightarrow> error + event list) \<Rightarrow> int \<Rightarrow> int \<Rightarrow> (int \<times> int) list
     \<Rightarrow> event list \<times> (int \<times> int) list" where
  "scan_blocks rd from_block to_block reads =
     (if from_block > to_block then ([], reads)
      else
        (case rd from_block to_block of
           Inr events \<Rightarrow> (events, reads @ [(from_block, to_block)])
         | Inl e \<Rightarrow>
             (case e of
                BlockNotFound \<Rightarrow> ([], reads @ [(from_block, to_block)])
              | Timeout \<Rightarrow> ([], reads @ [(from_block, to_block)])
              | _ \<Rightarrow> ([], reads @ [(from_block, to_block)]))))"

text \<open>
  \<open>TransactionProcessor.process_lock_event\<close> (lines 167-213): \<open>True\<close> when the mint
  transaction was built and signed, \<open>False\<close> when anything in the \<open>try\<close> block raised.
  The second component is the log of invocations.
\<close>

definition process_lock_event ::
  "(event list \<Rightarrow> event \<Rightarrow> error option) \<Rightarrow> event \<Rightarrow> event list \<Rightarrow> bool \<times> event list" where
  "process_lock_event sign e calls =
     (case sign calls e of
        None \<Rightarrow> (True, calls @ [e])
      | Some _ \<Rightarrow> (False, calls @ [e]))"

text \<open>The body of the \<open>for event in events\<close> loop of \<open>run\<close> (lines 299-307).\<close>

definition relay_event :: "env \<Rightarrow> event \<Rightarrow> orchestrator \<Rightarrow> orchestrator" where
  "relay_event w e s =
     (let tx_hash_hex = transactionHash e in
      if tx_hash_hex \<in> processed_transactions s then s
      else
        (let (success, calls) = process_lock_event (sign_mint w) e (submitted s);
             s1 = s\<lparr>submitted := calls\<rparr>
         in if success
            then s1\<lparr>processed_transactions := insert tx_hash_hex (processed_transactions s1)\<rparr>
            else s1))"

text \<open>The \<open>for\<close> loop itself (line 298).\<close>

fun process_events :: "env \<Rightarrow> event list \<Rightarrow> orchestrator \<Rightarrow> orchestrator" where
  "process_events w [] s = s"
| "process_events w (e # es) s = process_events w es (relay_event w e s)"

text \<open>
  \<open>BridgeOrchestrator._save_state\<close> (lines 257-268): \<open>IOError\<close> is caught and logged.
\<close>

definition save_state :: "write_result \<Rightarrow> orchestrator \<Rightarrow> orchestrator" where
  "save_state r s =
     (case r of
        Written \<Rightarrow> s\<lparr>state_file := Some (last_processed_block s, processed_transactions s)\<rparr>
      | OpenFailed \<Rightarrow> s
      | DumpFailed \<Rightarrow> s\<lparr>state_file := None\<rparr>)"

text \<open>\<open>time.sleep\<close>: raises \<open>ValueError\<close> on a negative argument.\<close>

definition sleep :: "int \<Rightarrow> orchestrator \<Rightarrow> outcome" where
  "sleep secs s =
     (if secs < 0 then Inl (ValueError, s) else Inr (s\<lparr>slept := slept s @ [secs]\<rparr>))"

text \<open>
  Lines 296-310 of \<open>run\<close>: scan the range, relay its events, set the last
  processed block to \<open>to_block\<close> and save the state. Nothing here raises:
  \<open>scan_blocks\<close>, \<open>process_lock_event\<close> and \<open>_save_state\<close> catch their exceptions.
\<close>

definition scan_relay_save :: "env \<Rightarrow> int \<Rightarrow> int \<Rightarrow> orchestrator \<Rightarrow> orchestrator" where
  "scan_relay_save w from_block to_block s =
     (let (events, reads) =
            scan_blocks (get_all_entries w) from_block to_block (filter_reads s);
          s1 = s\<lparr>scan_calls := scan_calls s @ [(from_block, to_block)],
                 filter_reads := reads\<rparr>;
          s2 = process_events w events s1;
          s3 = s2\<lparr>last_processed_block := Some to_block\<rparr>
      in save_state (dump w) s3)"

text \<open>
  The \<open>try\<close> block of the \<open>while True\<close> loop of \<open>run\<close> (lines 282-315). \<open>Inl (e, s')\<close>:
  exception \<open>e\<close> was raised with the state as it was then.
\<close>

definition loop_body :: "config \<Rightarrow> env \<Rightarrow> orchestrator \<Rightarrow> outcome" where
  "loop_body cfg w s =
     (case block_number w of
        Inl e \<Rightarrow> Inl (e, s)
      | Inr latest_block \<Rightarrow>
          (let to_block = latest_block - confirmations_required cfg in
           case last_processed_block s of
             None \<Rightarrow> Inl (TypeError, s)
           | Some b \<Rightarrow>
               (let from_block = b + 1 in
                if from_block > to_block then sleep (poll_interval_seconds cfg) s
                else
                  (let to_block =
                         (if to_block > from_block + scan_batch_size cfg - 1
                          then from_block + scan_batch_size cfg - 1 else to_block);
                       s' = scan_relay_save w from_block to_block s
                   in if to_block - from_block < scan_batch_size cfg - 1
                      then sleep (poll_interval_seconds cfg) s'
                      else Inr s'))))"

text \<open>
  One pass of the \<open>while True\<close> loop (lines 281-319): an exception of the \<open>try\<close> block
  is caught and followed by the doubled sleep; an exception of that sleep leaves the
  loop.
\<close>

definition iteration :: "config \<Rightarrow> env \<Rightarrow> orchestrator \<Rightarrow> outcome" where
  "iteration cfg w s =
     (case loop_body cfg w s of
        Inr s' \<Rightarrow> Inr s'
      | Inl (e, s') \<Rightarrow> sleep (poll_interval_seconds cfg * 2) s')"

text \<open>
  The loop over a finite prefix of its iterations, one \<open>env\<close> per iteration; it stops
  at the first exception that leaves the loop.
\<close>

fun run_loop :: "config \<Rightarrow> env list \<Rightarrow> orchestrator \<Rightarrow> outcome" where
  "run_loop cfg [] s = Inr s"
| "run_loop cfg (w # ws) s =
     (case iteration cfg w s of
        Inl x \<Rightarrow> Inl x
      | Inr s' \<Rightarrow> run_loop cfg ws s')"

text \<open>
  \<open>BridgeOrchestrator.run\<close> (lines 270-319): the first-run initialisation from the
  head read before the loop (lines 275-278), then the loop.
\<close>

definition run :: "config \<Rightarrow> error + int \<Rightarrow> env list \<Rightarrow> orchestrator \<Rightarrow> outcome" where
  "run cfg head0 ws s =
     (case last_processed_block s of
        None \<Rightarrow>
          (case head0 of
             Inl e \<Rightarrow> Inl (e, s)
           | Inr h \<Rightarrow>
               run_loop cfg ws (s\<lparr>last_processed_block := Some (h - confirmations_required cfg)\<rparr>))
      | Some _ \<Rightarrow> run_loop cfg ws s)"

text \<open>The state an outcome ends in, raised or not.\<close>

fun state_of :: "outcome \<Rightarrow> orchestrator" where
  "state_of (Inl (e, s)) = s"
| "state_of (Inr s) = s"

text \<open>
  The state of \<open>_load_state\<close> when no state file exists (line 255), with empty logs.
\<close>

definition fresh :: orchestrator where
  "fresh = \<lparr>last_processed_block = None, processed_transactions = {}, state_file = None,
            scan_calls = [], filter_reads = [], submitted = [], slept = []\<rparr>"

section \<open>Predicates of the claims\<close>

text \<open>The invocations of \<open>process_lock_event\<close> for the identifier \<open>h\<close>.\<close>

definition invocations :: "string \<Rightarrow> orchestrator \<Rightarrow> event list" where
  "invocations h s = filter (\<lambda>e. transactionHash e = h) (submitted s)"

text \<open>Every identifier of \<open>P\<close> belongs to a known event of block height at most \<open>t\<close>.\<close>

definition ids_below :: "event list \<Rightarrow> int \<Rightarrow> string set \<Rightarrow> bool" where
  "ids_below known t P = (\<forall>h\<in>P. \<exists>e\<in>set known. transactionHash e = h \<and> blockNumber e \<le> t)"

text \<open>
  The invariant of a checkpoint \<open>(l, P)\<close> against the events relayed so far: with no
  last scanned height there is no relayed identifier.
\<close>

definition checkpoint_ok :: "event list \<Rightarrow> int option \<Rightarrow> string set \<Rightarrow> bool" where
  "checkpoint_ok known l P = (case l of None \<Rightarrow> P = {} | Some b \<Rightarrow> ids_below known b P)"

definition memory_ok :: "orchestrator \<Rightarrow> bool" where
  "memory_ok s = checkpoint_ok (submitted s) (last_processed_block s) (processed_transactions s)"

definition file_ok :: "orchestrator \<Rightarrow> bool" where
  "file_ok s = (case state_file s of None \<Rightarrow> True | Some (l, P) \<Rightarrow> checkpoint_ok (submitted s) l P)"

text \<open>The log read returns no event of a block after the requested \<open>toBlock\<close>.\<close>

definition reads_up_to :: "env \<Rightarrow> bool" where
  "reads_up_to w = (\<forall>f t es. get_all_entries w f t = Inr es \<longrightarrow> (\<forall>e\<in>set es. blockNumber e \<le> t))"

section \<open>Example inputs\<close>

text \<open>
  The defaults of \<open>ConfigManager\<close>: 12 confirmations, batches of 100 blocks, a poll
  interval of 10 seconds.
\<close>

definition cfg0 :: config where
  "cfg0 = \<lparr>confirmations_required = 12, scan_batch_size = 100, poll_interval_seconds = 10\<rparr>"

text \<open>A source chain at height \<open>h\<close> with no events; every call succeeds.\<close>

definition quiet :: "int \<Rightarrow> env" where
  "quiet h = \<lparr>block_number = Inr h, get_all_entries = (\<lambda>f t. Inr []),
              sign_mint = (\<lambda>calls e. None), dump = Written\<rparr>"

text \<open>A source node at height \<open>h\<close> whose log read raises \<open>BlockNotFound\<close>.\<close>

definition unavailable :: "int \<Rightarrow> env" where
  "unavailable h = \<lparr>block_number = Inr h, get_all_entries = (\<lambda>f t. Inl BlockNotFound),
              sign_mint = (\<lambda>calls e. None), dump = Written\<rparr>"

text \<open>A source chain at height \<open>h\<close> holding the events \<open>es\<close>; every call succeeds.\<close>

definition emitting :: "int \<Rightarrow> event list \<Rightarrow> env" where
  "emitting h es = \<lparr>block_number = Inr h,
     get_all_entries = (\<lambda>f t. Inr (filter (\<lambda>e. f \<le> blockNumber e \<and> blockNumber e \<le> t) es)),
     sign_mint = (\<lambda>calls e. None), dump = Written\<rparr>"

text \<open>The same, with a destination chain on which every mint transaction fails.\<close>

definition rejecting :: "int \<Rightarrow> event list \<Rightarrow> env" where
  "rejecting h es = (emitting h es)\<lparr>sign_mint := (\<lambda>calls e. Some RpcError)\<rparr>"

text \<open>A process that loaded a state file with last processed block \<open>b\<close>.\<close>

definition resumed :: "int \<Rightarrow> orchestrator" where
  "resumed b = fresh\<lparr>last_processed_block := Some b\<rparr>"

definition lock1 :: event where
  "lock1 = \<lparr>transactionHash = ''0xabc'', blockNumber = 650, recipient = ''0x01'', amount = 5\<rparr>"

section \<open>What each operation leaves unchanged\<close>

lemma relay_event_fields [simp]:
  "last_processed_block (relay_event w e s) = last_processed_block s"
  "state_file (relay_event w e s) = state_file s"
  "scan_calls (relay_event w e s) = scan_calls s"
  "filter_reads (relay_event w e s) = filter_reads s"
  "slept (relay_event w e s) = slept s"
  by (simp_all add: relay_event_def process_lock_event_def Let_def split: option.splits)

lemma process_events_fields [simp]:
  "last_processed_block (process_events w es s) = last_processed_block s"
  "state_file (process_events w es s) = state_file s"
  "scan_calls (process_events w es s) = scan_calls s"
  "filter_reads (process_events w es s) = filter_reads s"
  "slept (process_events w es s) = slept s"
  by (induction es arbitrary: s) simp_all

lemma save_state_fields [simp]:
  "last_processed_block (save_state r s) = last_processed_block s"
  "processed_transactions (save_state r s) = processed_transactions s"
  "scan_calls (save_state r s) = scan_calls s"
  "filter_reads (save_state r s) = filter_reads s"
  "submitted (save_state r s) = submitted s"
  "slept (save_state r s) = slept s"
  by (simp_all add: save_state_def split: write_result.splits)

lemma scan_blocks_reads:
  "snd (scan_blocks rd f t reads) = (if f > t then reads else reads @ [(f, t)])"
  by (simp add: scan_blocks_def split: sum.splits error.splits)

lemma scan_blocks_events:
  "fst (scan_blocks rd f t reads) =
     (if f > t then [] else case rd f t of Inr es \<Rightarrow> es | Inl e \<Rightarrow> [])"
  by (simp add: scan_blocks_def split: sum.splits error.splits)

lemma scan_relay_save_fields [simp]:
  "last_processed_block (scan_relay_save w f t s) = Some t"
  "scan_calls (scan_relay_save w f t s) = scan_calls s @ [(f, t)]"
  "filter_reads (scan_relay_save w f t s) = snd (scan_blocks (get_all_entries w) f t (filter_reads s))"
  "slept (scan_relay_save w f t s) = slept s"
  by (simp_all add: scan_relay_save_def Let_def split: prod.splits)

lemma loop_body_scan:
  assumes "block_number w = Inr h" "last_processed_block s = Some b"
    "b + 1 \<le> h - confirmations_required cfg"
  shows "loop_body cfg w s =
     (let f = b + 1; t = min (h - confirmations_required cfg) (f + scan_batch_size cfg - 1);
          s' = scan_relay_save w f t s
      in if t - f < scan_batch_size cfg - 1 then sleep (poll_interval_seconds cfg) s' else Inr s')"
  using assms by (simp add: loop_body_def Let_def min_def)

lemma loop_body_wait:
  assumes "block_number w = Inr h" "last_processed_block s = Some b"
    "b + 1 > h - confirmations_required cfg"
  shows "loop_body cfg w s = sleep (poll_interval_seconds cfg) s"
  using assms by (simp add: loop_body_def Let_def)

lemma sleep_fields [simp]:
  "last_processed_block (state_of (sleep n s)) = last_processed_block s"
  "processed_transactions (state_of (sleep n s)) = processed_transactions s"
  "state_file (state_of (sleep n s)) = state_file s"
  "scan_calls (state_of (sleep n s)) = scan_calls s"
  "filter_reads (state_of (sleep n s)) = filter_reads s"
  "submitted (state_of (sleep n s)) = submitted s"
  by (simp_all add: sleep_def)

lemma sleep_ok: "0 \<le> n \<Longrightarrow> sleep n s = Inr (s\<lparr>slept := slept s @ [n]\<rparr>)"
  by (simp add: sleep_def)

section \<open>The branches of one iteration\<close>

text \<open>The state an iteration ends in, by the branch of the loop body taken.\<close>

lemma iteration_scan_state:
  assumes "block_number w = Inr h" "last_processed_block s = Some b"
    "b + 1 \<le> h - confirmations_required cfg"
  shows "\<exists>n. state_of (iteration cfg w s) = state_of (sleep n
     (scan_relay_save w (b + 1) (min (h - confirmations_required cfg) (b + 1 + scan_batch_size cfg - 1)) s))
   \<or> state_of (iteration cfg w s) =
     scan_relay_save w (b + 1) (min (h - confirmations_required cfg) (b + 1 + scan_batch_size cfg - 1)) s"
proof -
  define s' where "s' = scan_relay_save w (b + 1)
     (min (h - confirmations_required cfg) (b + 1 + scan_batch_size cfg - 1)) s"
  have "loop_body cfg w s = sleep (poll_interval_seconds cfg) s' \<or> loop_body cfg w s = Inr s'"
    using loop_body_scan [OF assms] by (simp add: s'_def Let_def)
  then have "state_of (iteration cfg w s) = s'
     \<or> state_of (iteration cfg w s) = state_of (sleep (poll_interval_seconds cfg) s')
     \<or> state_of (iteration cfg w s) = state_of (sleep (poll_interval_seconds cfg * 2) s')"
    by (auto simp: iteration_def sleep_def)
  then show ?thesis unfolding s'_def by blast
qed

lemma iteration_wait_state:
  assumes "\<And>h b. block_number w = Inr h \<Longrightarrow> last_processed_block s = Some b \<Longrightarrow>
     b + 1 > h - confirmations_required cfg"
  shows "\<exists>n. state_of (iteration cfg w s) = state_of (sleep n s)"
proof -
  have "loop_body cfg w s = sleep (poll_interval_seconds cfg) s \<or> (\<exists>e. loop_body cfg w s = Inl (e, s))"
    using assms by (auto simp: loop_body_def Let_def split: sum.splits option.splits)
  then have "state_of (iteration cfg w s) = state_of (sleep (poll_interval_seconds cfg) s)
     \<or> state_of (iteration cfg w s) = state_of (sleep (poll_interval_seconds cfg * 2) s)"
    by (auto simp: iteration_def sleep_def)
  then show ?thesis by blast
qed

lemma iteration_cases:
  obtains (wait) n where "state_of (iteration cfg w s) = state_of (sleep n s)"
  | (scan) h b s' where "block_number w = Inr h" "last_processed_block s = Some b"
      "b + 1 \<le> h - confirmations_required cfg"
      "s' = scan_relay_save w (b + 1)
          (min (h - confirmations_required cfg) (b + 1 + scan_batch_size cfg - 1)) s"
      "state_of (iteration cfg w s) = s' \<or> (\<exists>n. state_of (iteration cfg w s) = state_of (sleep n s'))"
proof (cases "\<exists>h b. block_number w = Inr h \<and> last_processed_block s = Some b \<and>
     b + 1 \<le> h - confirmations_required cfg")
  case True
  then obtain h b where *: "block_number w = Inr h" "last_processed_block s = Some b"
     "b + 1 \<le> h - confirmations_required cfg" by blast
  from iteration_scan_state [OF *, of ] scan [OF *] show ?thesis by blast
next
  case False
  then have "block_number w = Inr h \<Longrightarrow> last_processed_block s = Some b \<Longrightarrow>
     b + 1 > h - confirmations_required cfg" for h b
    by auto
  from iteration_wait_state [OF this] wait show ?thesis by blast
qed

lemma iteration_scan:
  assumes "block_number w = Inr h" "last_processed_block s = Some b"
    "b + 1 \<le> h - confirmations_required cfg" "0 \<le> poll_interval_seconds cfg"
  shows "iteration cfg w s =
     (let f = b + 1; t = min (h - confirmations_required cfg) (f + scan_batch_size cfg - 1);
          s' = scan_relay_save w f t s
      in if t - f < scan_batch_size cfg - 1
         then Inr (s'\<lparr>slept := slept s' @ [poll_interval_seconds cfg]\<rparr>) else Inr s')"
  using assms by (simp add: iteration_def loop_body_scan Let_def sleep_ok)

lemma iteration_monotone:
  assumes "0 \<le> scan_batch_size cfg" "last_processed_block s = Some b"
  shows "\<exists>b'. last_processed_block (state_of (iteration cfg w s)) = Some b' \<and> b \<le> b'"
proof (cases cfg w s rule: iteration_cases)
  case (wait n)
  with assms show ?thesis by simp
next
  case (scan h b0 s')
  with assms have "b0 = b" by simp
  from scan(5) have "last_processed_block (state_of (iteration cfg w s)) = last_processed_block s'"
    by auto
  with scan(3,4) assms(1) \<open>b0 = b\<close> show ?thesis by simp
qed

lemma state_of_run_loop_Cons:
  "state_of (run_loop cfg (w # ws) s) =
     (case iteration cfg w s of
        Inl x \<Rightarrow> state_of (iteration cfg w s)
      | Inr s' \<Rightarrow> state_of (run_loop cfg ws s'))"
  by (simp split: sum.splits)

section \<open>Relaying one event\<close>

lemma relay_event_skip:
  "transactionHash e \<in> processed_transactions s \<Longrightarrow> relay_event w e s = s"
  by (simp add: relay_event_def)

lemma relay_event_success:
  "transactionHash e \<notin> processed_transactions s \<Longrightarrow> sign_mint w (submitted s) e = None \<Longrightarrow>
   relay_event w e s = s\<lparr>submitted := submitted s @ [e],
      processed_transactions := insert (transactionHash e) (processed_transactions s)\<rparr>"
  by (simp add: relay_event_def process_lock_event_def)

lemma relay_event_failure:
  "transactionHash e \<notin> processed_transactions s \<Longrightarrow> sign_mint w (submitted s) e = Some x \<Longrightarrow>
   relay_event w e s = s\<lparr>submitted := submitted s @ [e]\<rparr>"
  by (simp add: relay_event_def process_lock_event_def)

lemma relay_event_cases:
  "relay_event w e s = s \<and> transactionHash e \<in> processed_transactions s
   \<or> transactionHash e \<notin> processed_transactions s \<and>
      (relay_event w e s = s\<lparr>submitted := submitted s @ [e],
          processed_transactions := insert (transactionHash e) (processed_transactions s)\<rparr>
       \<or> relay_event w e s = s\<lparr>submitted := submitted s @ [e]\<rparr>)"
proof (cases "transactionHash e \<in> processed_transactions s")
  case True
  then show ?thesis by (simp add: relay_event_skip)
next
  case False
  then show ?thesis
    by (cases "sign_mint w (submitted s) e")
       (simp_all add: relay_event_success relay_event_failure)
qed

lemma relay_event_keeps:
  assumes "h \<in> processed_transactions s"
  shows "h \<in> processed_transactions (relay_event w e s) \<and>
         invocations h (relay_event w e s) = invocations h s"
  using relay_event_cases [of w e s] assms by (auto simp: invocations_def)

lemma process_events_keeps:
  assumes "h \<in> processed_transactions s"
  shows "h \<in> processed_transactions (process_events w es s) \<and>
         invocations h (process_events w es s) = invocations h s"
  using assms
proof (induction es arbitrary: s)
  case Nil
  then show ?case by simp
next
  case (Cons e es)
  from relay_event_keeps [OF Cons.prems, of w e] Cons.IH [of "relay_event w e s"]
  show ?case by simp
qed

lemma scan_relay_save_unfold:
  "scan_relay_save w f t s =
     save_state (dump w)
       ((process_events w (fst (scan_blocks (get_all_entries w) f t (filter_reads s)))
           (s\<lparr>scan_calls := scan_calls s @ [(f, t)],
              filter_reads := snd (scan_blocks (get_all_entries w) f t (filter_reads s))\<rparr>))
        \<lparr>last_processed_block := Some t\<rparr>)"
  by (simp add: scan_relay_save_def split: prod.splits)

lemma scan_relay_save_keeps:
  assumes "h \<in> processed_transactions s"
  shows "h \<in> processed_transactions (scan_relay_save w f t s) \<and>
         invocations h (scan_relay_save w f t s) = invocations h s"
proof -
  define s1 where "s1 = s\<lparr>scan_calls := scan_calls s @ [(f, t)],
     filter_reads := snd (scan_blocks (get_all_entries w) f t (filter_reads s))\<rparr>"
  have "h \<in> processed_transactions s1" "invocations h s1 = invocations h s"
    using assms by (simp_all add: s1_def invocations_def)
  with process_events_keeps [of h s1 w "fst (scan_blocks (get_all_entries w) f t (filter_reads s))"]
  show ?thesis
    unfolding scan_relay_save_unfold s1_def [symmetric] by (simp add: invocations_def)
qed

lemma sleep_keeps [simp]:
  "invocations h (state_of (sleep n s)) = invocations h s"
  by (simp add: invocations_def)

lemma iteration_keeps:
  assumes "h \<in> processed_transactions s"
  shows "h \<in> processed_transactions (state_of (iteration cfg w s)) \<and>
         invocations h (state_of (iteration cfg w s)) = invocations h s"
proof (cases cfg w s rule: iteration_cases)
  case (wait n)
  with assms show ?thesis by simp
next
  case (scan hd b s')
  from scan(4) scan_relay_save_keeps [OF assms] have
    "h \<in> processed_transactions s'" "invocations h s' = invocations h s" by simp_all
  with scan(5) show ?thesis by auto
qed

lemma run_loop_keeps:
  assumes "h \<in> processed_transactions s"
  shows "h \<in> processed_transactions (state_of (run_loop cfg ws s)) \<and>
         invocations h (state_of (run_loop cfg ws s)) = invocations h s"
  using assms
proof (induction ws arbitrary: s)
  case Nil
  then show ?case by simp
next
  case (Cons w ws)
  note it = iteration_keeps [OF Cons.prems, of cfg w]
  show ?case
  proof (cases "iteration cfg w s")
    case (Inl x)
    with it show ?thesis by (simp add: state_of_run_loop_Cons)
  next
    case (Inr s1)
    with it have "h \<in> processed_transactions s1" "invocations h s1 = invocations h s" by simp_all
    with Cons.IH [of s1] Inr show ?thesis by (simp add: state_of_run_loop_Cons)
  qed
qed

section \<open>The checkpoint invariant\<close>

lemma ids_below_mono:
  "ids_below known t P \<Longrightarrow> set known \<subseteq> set known' \<Longrightarrow> t \<le> t' \<Longrightarrow> ids_below known' t' P"
  unfolding ids_below_def by (meson order_trans subsetD)

lemma relay_event_ids_below:
  assumes "ids_below (submitted s) t (processed_transactions s)" "blockNumber e \<le> t"
  shows "ids_below (submitted (relay_event w e s)) t (processed_transactions (relay_event w e s))"
  using relay_event_cases [of w e s] assms
  by (auto simp: ids_below_def)

lemma relay_event_submitted: "set (submitted s) \<subseteq> set (submitted (relay_event w e s))"
  using relay_event_cases [of w e s] by auto

lemma process_events_submitted: "set (submitted s) \<subseteq> set (submitted (process_events w es s))"
proof (induction es arbitrary: s)
  case Nil
  then show ?case by simp
next
  case (Cons e es)
  from relay_event_submitted [of s w e] Cons [of "relay_event w e s"]
  show ?case by auto
qed

lemma process_events_ids_below:
  assumes "ids_below (submitted s) t (processed_transactions s)" "\<forall>e\<in>set es. blockNumber e \<le> t"
  shows "ids_below (submitted (process_events w es s)) t (processed_transactions (process_events w es s))"
  using assms
proof (induction es arbitrary: s)
  case Nil
  then show ?case by simp
next
  case (Cons e es)
  from Cons.prems have "ids_below (submitted (relay_event w e s)) t
      (processed_transactions (relay_event w e s))"
    by (simp add: relay_event_ids_below)
  with Cons.IH [of "relay_event w e s"] Cons.prems(2) show ?case by simp
qed

lemma scan_blocks_up_to:
  assumes "reads_up_to w"
  shows "\<forall>e\<in>set (fst (scan_blocks (get_all_entries w) f t reads)). blockNumber e \<le> t"
proof (cases "get_all_entries w f t")
  case (Inl x)
  then show ?thesis by (simp add: scan_blocks_events)
next
  case (Inr es)
  with assms have "\<forall>e\<in>set es. blockNumber e \<le> t"
    unfolding reads_up_to_def by blast
  with Inr show ?thesis by (simp add: scan_blocks_events)
qed

lemma checkpoint_ok_mono:
  "checkpoint_ok known l P \<Longrightarrow> set known \<subseteq> set known' \<Longrightarrow> checkpoint_ok known' l P"
  unfolding checkpoint_ok_def by (auto split: option.splits intro: ids_below_mono)

lemma scan_relay_save_ok:
  assumes "reads_up_to w" "memory_ok s" "file_ok s" "last_processed_block s = Some b" "b \<le> t"
  shows "memory_ok (scan_relay_save w f t s) \<and> file_ok (scan_relay_save w f t s)"
proof -
  define s1 where "s1 = s\<lparr>scan_calls := scan_calls s @ [(f, t)],
     filter_reads := snd (scan_blocks (get_all_entries w) f t (filter_reads s))\<rparr>"
  define s2 where "s2 = process_events w (fst (scan_blocks (get_all_entries w) f t (filter_reads s))) s1"
  define s3 where "s3 = s2\<lparr>last_processed_block := Some t\<rparr>"
  have srs: "scan_relay_save w f t s = save_state (dump w) s3"
    unfolding scan_relay_save_unfold s1_def s2_def s3_def ..
  from assms(2,4,5) have "ids_below (submitted s1) t (processed_transactions s1)"
    by (auto simp: memory_ok_def checkpoint_ok_def s1_def intro: ids_below_mono)
  then have ids: "ids_below (submitted s2) t (processed_transactions s2)"
    unfolding s2_def using scan_blocks_up_to [OF assms(1)]
    by (rule process_events_ids_below)
  have sub: "set (submitted s) \<subseteq> set (submitted s2)"
    using process_events_submitted [of s1 w] by (simp add: s2_def s1_def)
  from ids have m3: "memory_ok s3" by (simp add: memory_ok_def checkpoint_ok_def s3_def)
  have "state_file s2 = state_file s" by (simp add: s2_def s1_def)
  with assms(3) sub have f3: "file_ok s3"
    by (auto simp: file_ok_def s3_def split: option.splits intro: checkpoint_ok_mono)
  from m3 f3 show ?thesis
    unfolding srs by (cases "dump w") (auto simp: save_state_def memory_ok_def file_ok_def)
qed

lemma sleep_ok_fields [simp]:
  "memory_ok (state_of (sleep n s)) = memory_ok s"
  "file_ok (state_of (sleep n s)) = file_ok s"
  by (simp_all add: memory_ok_def file_ok_def split: option.splits)

lemma iteration_ok:
  assumes "0 \<le> scan_batch_size cfg" "reads_up_to w" "memory_ok s" "file_ok s"
  shows "memory_ok (state_of (iteration cfg w s)) \<and> file_ok (state_of (iteration cfg w s))"
proof (cases cfg w s rule: iteration_cases)
  case (wait n)
  with assms show ?thesis by simp
next
  case (scan h b s')
  from scan(3) assms(1)
  have "b \<le> min (h - confirmations_required cfg) (b + 1 + scan_batch_size cfg - 1)" by simp
  from scan_relay_save_ok [OF assms(2-4) scan(2) this] scan(4)
  have "memory_ok s' \<and> file_ok s'" by simp
  with scan(5) show ?thesis by auto
qed

text \<open>
  A batch over \<open>(f, t)\<close> leaves the state file as it was, unreadable, or holding the
  processed set together with \<open>t\<close>: identifiers added during the batch are never
  saved with an older block.
\<close>

lemma scan_relay_save_file:
  "state_file (scan_relay_save w f t s) = state_file s \<or>
   state_file (scan_relay_save w f t s) = None \<or>
   state_file (scan_relay_save w f t s) =
     Some (Some t, processed_transactions (scan_relay_save w f t s))"
  unfolding scan_relay_save_unfold
  by (cases "dump w") (simp_all add: save_state_def)

section \<open>The scanner\<close>

text \<open>
  Claim C10. For all integers \<open>from_block > to_block\<close>, \<open>scan_blocks\<close> returns the empty
  list and does not invoke the ledger read: the log of reads is returned as it was,
  whatever the reader would have answered.
\<close>

theorem scan_blocks_inverted_range:
  "from_block > to_block \<Longrightarrow> scan_blocks rd from_block to_block reads = ([], reads)"
  by (simp add: scan_blocks_def)

theorem scan_blocks_inverted_range_witness:
  "(7::int) > 3 \<and> scan_blocks (get_all_entries (unavailable 20)) 7 3 [(1, 2)] = ([], [(1, 2)])"
  using scan_blocks_inverted_range [of 3 7 "get_all_entries (unavailable 20)" "[(1, 2)]"] by simp

section \<open>The range scheduled by an iteration\<close>

text \<open>
  Claim C6. When the next block \<open>from = last_processed_block + 1\<close> is confirmed, the range
  handed to the scanner is \<open>(from, min confirmedHead (from + maxBatchSize - 1))\<close>, with
  \<open>confirmedHead = head - confirmations_required\<close>. With last processed block 500,
  confirmed head 800 and batch size 100 it is \<open>(501, 600)\<close>.
\<close>

theorem range_is_capped_at_batch_size:
  assumes "block_number w = Inr h" and "last_processed_block s = Some b"
    and "b + 1 \<le> h - confirmations_required cfg"
  shows "scan_calls (state_of (iteration cfg w s)) =
           scan_calls s @
             [(b + 1, min (h - confirmations_required cfg) (b + 1 + scan_batch_size cfg - 1))]"
  using iteration_scan_state [OF assms] by auto

theorem range_is_capped_at_batch_size_witness:
  "block_number (quiet 812) = Inr 812 \<and> last_processed_block (resumed 500) = Some 500 \<and>
   (500::int) + 1 \<le> 812 - confirmations_required cfg0 \<and>
   812 - confirmations_required cfg0 = 800 \<and> scan_batch_size cfg0 = 100 \<and>
   scan_calls (state_of (iteration cfg0 (quiet 812) (resumed 500))) = [(501, 600)]"
  using range_is_capped_at_batch_size [of "quiet 812" 812 "resumed 500" 500 cfg0]
  by (simp add: quiet_def resumed_def fresh_def cfg0_def)

text \<open>
  Claim C5. In every iteration, each range handed to the scanner and each range read
  from the ledger has an upper bound of at most \<open>head - confirmations_required\<close>, where
  \<open>head\<close> is the height read in that iteration; an iteration whose head read fails
  scans nothing.
\<close>

theorem scanned_range_is_confirmed:
  "\<exists>calls reads.
     scan_calls (state_of (iteration cfg w s)) = scan_calls s @ calls \<and>
     filter_reads (state_of (iteration cfg w s)) = filter_reads s @ reads \<and>
     (\<forall>(f, t) \<in> set calls \<union> set reads.
        \<exists>h. block_number w = Inr h \<and> t \<le> h - confirmations_required cfg)"
proof (cases cfg w s rule: iteration_cases)
  case (wait n)
  then show ?thesis by simp
next
  case (scan h b s')
  then have "scan_calls (state_of (iteration cfg w s)) = scan_calls s'"
    "filter_reads (state_of (iteration cfg w s)) = filter_reads s'"
    by auto
  with scan(1,4) show ?thesis
    by (auto simp: scan_blocks_reads)
qed

theorem scanned_range_is_confirmed_witness:
  "scan_calls (state_of (iteration cfg0 (quiet 812) (resumed 500))) = [(501, 600)] \<and>
   filter_reads (state_of (iteration cfg0 (quiet 812) (resumed 500))) = [(501, 600)] \<and>
   block_number (quiet 812) = Inr 812 \<and> (600::int) \<le> 812 - confirmations_required cfg0"
proof -
  obtain calls reads where
    c: "scan_calls (state_of (iteration cfg0 (quiet 812) (resumed 500))) = scan_calls (resumed 500) @ calls"
    and r: "filter_reads (state_of (iteration cfg0 (quiet 812) (resumed 500))) = filter_reads (resumed 500) @ reads"
    and b: "\<forall>(f, t) \<in> set calls \<union> set reads.
        \<exists>h. block_number (quiet 812) = Inr h \<and> t \<le> h - confirmations_required cfg0"
    using scanned_range_is_confirmed [of cfg0 "quiet 812" "resumed 500"] by blast
  have it: "iteration cfg0 (quiet 812) (resumed 500) =
     Inr ((resumed 500)\<lparr>last_processed_block := Some 600, state_file := Some (Some 600, {}),
        scan_calls := [(501, 600)], filter_reads := [(501, 600)]\<rparr>)"
    by (simp add: iteration_def loop_body_def scan_relay_save_def scan_blocks_def save_state_def
        quiet_def resumed_def fresh_def cfg0_def)
  from c it have "calls = [(501, 600)]" by (simp add: resumed_def fresh_def)
  with b have "\<exists>h. block_number (quiet 812) = Inr h \<and> 600 \<le> h - confirmations_required cfg0"
    by simp
  with it show ?thesis by (simp add: quiet_def)
qed

text \<open>
  Claim C7. When \<open>from = last_processed_block + 1\<close> exceeds the confirmed head, the
  iteration scans nothing, relays nothing, leaves the checkpoint as it is and sleeps
  for the poll interval: the only change of the state is the sleep. The poll interval
  is taken non-negative, as the configuration surface has it (\<open>time.sleep\<close> raises on a
  negative one). With last processed block 800 and confirmed head 790 it waits.
\<close>

theorem wait_when_nothing_confirmed:
  assumes "block_number w = Inr h" and "last_processed_block s = Some b"
    and "b + 1 > h - confirmations_required cfg" and "0 \<le> poll_interval_seconds cfg"
  shows "iteration cfg w s = Inr (s\<lparr>slept := slept s @ [poll_interval_seconds cfg]\<rparr>)"
  using assms by (simp add: iteration_def loop_body_wait sleep_ok)

theorem wait_when_nothing_confirmed_witness:
  "block_number (quiet 802) = Inr 802 \<and> last_processed_block (resumed 800) = Some 800 \<and>
   802 - confirmations_required cfg0 = 790 \<and> (800::int) + 1 > 790 \<and>
   0 \<le> poll_interval_seconds cfg0 \<and>
   iteration cfg0 (quiet 802) (resumed 800) = Inr ((resumed 800)\<lparr>slept := [10]\<rparr>)"
  using wait_when_nothing_confirmed [of "quiet 802" 802 "resumed 800" 800 cfg0]
  by (simp add: quiet_def resumed_def fresh_def cfg0_def)

text \<open>
  Claim C9. After the checkpoint of a scanned range \<open>(f, t)\<close> the loop skips the sleep
  exactly when \<open>t - f = scan_batch_size - 1\<close> and sleeps for the poll interval exactly
  when \<open>t - f < scan_batch_size - 1\<close>; one of the two always holds. The poll interval is
  taken non-negative, as the configuration surface has it.
\<close>

theorem sleep_iff_batch_not_full:
  assumes "block_number w = Inr h" and "last_processed_block s = Some b"
    and "b + 1 \<le> h - confirmations_required cfg" and "0 \<le> poll_interval_seconds cfg"
  shows "\<exists>f t s'. iteration cfg w s = Inr s' \<and>
           scan_calls s' = scan_calls s @ [(f, t)] \<and> last_processed_block s' = Some t \<and>
           (t - f = scan_batch_size cfg - 1 \<or> t - f < scan_batch_size cfg - 1) \<and>
           (t - f = scan_batch_size cfg - 1 \<longrightarrow> slept s' = slept s) \<and>
           (t - f < scan_batch_size cfg - 1 \<longrightarrow> slept s' = slept s @ [poll_interval_seconds cfg])"
  using assms by (auto simp: iteration_scan Let_def min_def)

theorem sleep_iff_batch_not_full_witness:
  "iteration cfg0 (quiet 812) (resumed 500) =
     Inr ((resumed 500)\<lparr>last_processed_block := Some 600, state_file := Some (Some 600, {}),
        scan_calls := [(501, 600)], filter_reads := [(501, 600)]\<rparr>) \<and>
   iteration cfg0 (quiet 562) (resumed 500) =
     Inr ((resumed 500)\<lparr>last_processed_block := Some 550, state_file := Some (Some 550, {}),
        scan_calls := [(501, 550)], filter_reads := [(501, 550)], slept := [10]\<rparr>)"
proof -
  have "\<exists>f t s'. iteration cfg0 (quiet 812) (resumed 500) = Inr s' \<and>
           scan_calls s' = scan_calls (resumed 500) @ [(f, t)] \<and> last_processed_block s' = Some t \<and>
           (t - f = scan_batch_size cfg0 - 1 \<or> t - f < scan_batch_size cfg0 - 1) \<and>
           (t - f = scan_batch_size cfg0 - 1 \<longrightarrow> slept s' = slept (resumed 500)) \<and>
           (t - f < scan_batch_size cfg0 - 1 \<longrightarrow> slept s' = slept (resumed 500) @ [poll_interval_seconds cfg0])"
    by (rule sleep_iff_batch_not_full [of "quiet 812" 812 "resumed 500" 500 cfg0])
       (simp_all add: quiet_def resumed_def fresh_def cfg0_def)
  moreover have "\<exists>f t s'. iteration cfg0 (quiet 562) (resumed 500) = Inr s' \<and>
           scan_calls s' = scan_calls (resumed 500) @ [(f, t)] \<and> last_processed_block s' = Some t \<and>
           (t - f = scan_batch_size cfg0 - 1 \<or> t - f < scan_batch_size cfg0 - 1) \<and>
           (t - f = scan_batch_size cfg0 - 1 \<longrightarrow> slept s' = slept (resumed 500)) \<and>
           (t - f < scan_batch_size cfg0 - 1 \<longrightarrow> slept s' = slept (resumed 500) @ [poll_interval_seconds cfg0])"
    by (rule sleep_iff_batch_not_full [of "quiet 562" 562 "resumed 500" 500 cfg0])
       (simp_all add: quiet_def resumed_def fresh_def cfg0_def)
  ultimately show ?thesis
    by (simp add: iteration_def loop_body_def scan_relay_save_def scan_blocks_def save_state_def
        sleep_def quiet_def resumed_def fresh_def cfg0_def)
qed

section \<open>The checkpoint\<close>

text \<open>
  Claim C1 says that a failed scan of \<open>(601, 700)\<close> leaves the last processed block at
  600. The code at that input: \<open>scan_blocks\<close> turns the \<open>BlockNotFound\<close> of the read into
  the empty list, the iteration sets the last processed block to 700 and saves it,
  and the next iteration scans from 701, so that the range is not read again.
\<close>

theorem scan_failure_advances_checkpoint:
  "get_all_entries (unavailable 712) 601 700 = Inl BlockNotFound \<and>
   iteration cfg0 (unavailable 712) (resumed 600) =
     Inr ((resumed 600)\<lparr>last_processed_block := Some 700, state_file := Some (Some 700, {}),
        scan_calls := [(601, 700)], filter_reads := [(601, 700)]\<rparr>) \<and>
   scan_calls (state_of (run_loop cfg0 [unavailable 712, quiet 812] (resumed 600))) =
     [(601, 700), (701, 800)]"
  by (simp add: iteration_def loop_body_def scan_relay_save_def scan_blocks_def save_state_def
        sleep_def unavailable_def quiet_def resumed_def fresh_def cfg0_def)

text \<open>
  Claim C3 says that the first range of a first run with head 1000 and 12
  confirmations starts at 988. The code at that input: the initialisation sets the
  last processed block to 988, the first iteration computes \<open>from = 989\<close> and waits, and
  the first range scanned, once the head is 1001, is \<open>(989, 989)\<close>; block 988 is not
  scanned.
\<close>

theorem first_run_starts_after_confirmed_head:
  "run cfg0 (Inr 1000) [] fresh = Inr (resumed 988) \<and>
   run cfg0 (Inr 1000) [quiet 1000] fresh = Inr ((resumed 988)\<lparr>slept := [10]\<rparr>) \<and>
   scan_calls (state_of (run cfg0 (Inr 1000) [quiet 1000, quiet 1001] fresh)) = [(989, 989)]"
  by (simp add: run_def iteration_def loop_body_def scan_relay_save_def scan_blocks_def save_state_def
        sleep_def quiet_def resumed_def fresh_def cfg0_def)

text \<open>
  Claim C4, as stated: no iteration ever decreases the last processed block. It fails
  for a negative batch size: \<open>SCAN_BATCH_SIZE\<close> is read with \<open>int\<close> (line 36) and not
  validated, the cap at lines 293-294 puts \<open>to_block\<close> below the last processed block,
  and lines 309-310 store and save it while the loop keeps running. With a batch size
  of -5, last processed block 600 and head 812 the iteration ends with 595 in memory
  and in the state file.
\<close>

theorem negative_batch_size_rewinds:
  "last_processed_block (resumed 600) = Some 600 \<and>
   run_loop (cfg0\<lparr>scan_batch_size := -5\<rparr>) [quiet 812] (resumed 600) =
     Inr ((resumed 600)\<lparr>last_processed_block := Some 595, state_file := Some (Some 595, {}),
        scan_calls := [(601, 595)]\<rparr>) \<and>
   (595::int) < 600"
  by (simp add: iteration_def loop_body_def scan_relay_save_def scan_blocks_def save_state_def
        sleep_def quiet_def resumed_def fresh_def cfg0_def)

text \<open>
  Claim C4, amended. When the configured batch size is not negative, the last
  processed block, once set, never decreases over any sequence of iterations,
  whatever the head, the scans, the relays and the writes do and whether or not an
  iteration raises.
\<close>

theorem last_processed_block_never_decreases:
  assumes "0 \<le> scan_batch_size cfg" and "last_processed_block s = Some b"
  shows "\<exists>b'. last_processed_block (state_of (run_loop cfg ws s)) = Some b' \<and> b \<le> b'"
  using assms(2)
proof (induction ws arbitrary: s b)
  case Nil
  then show ?case by simp
next
  case (Cons w ws)
  from iteration_monotone [OF assms(1) Cons.prems, of w]
  obtain b1 where b1: "last_processed_block (state_of (iteration cfg w s)) = Some b1" "b \<le> b1"
    by blast
  show ?case
  proof (cases "iteration cfg w s")
    case (Inl x)
    with b1 show ?thesis by (simp add: state_of_run_loop_Cons)
  next
    case (Inr s1)
    with b1 have "last_processed_block s1 = Some b1" by simp
    from Cons.IH [OF this] obtain b' where
      "last_processed_block (state_of (run_loop cfg ws s1)) = Some b'" "b1 \<le> b'" by blast
    with Inr b1(2) show ?thesis by (simp add: state_of_run_loop_Cons)
  qed
qed

theorem last_processed_block_never_decreases_witness:
  "0 \<le> scan_batch_size cfg0 \<and> last_processed_block (resumed 600) = Some 600 \<and>
   last_processed_block
     (state_of (run_loop cfg0 [unavailable 712, quiet 712, emitting 730 [lock1]] (resumed 600)))
     = Some 718 \<and> (600::int) \<le> 718"
  using last_processed_block_never_decreases
    [of cfg0 "resumed 600" 600 "[unavailable 712, quiet 712, emitting 730 [lock1]]"]
  by (simp add: iteration_def loop_body_def scan_relay_save_def scan_blocks_def save_state_def
        sleep_def unavailable_def quiet_def emitting_def lock1_def resumed_def fresh_def cfg0_def
        relay_event_def process_lock_event_def)

section \<open>Deduplication\<close>

text \<open>
  Claim C2, as stated: relaying the same event twice invokes \<open>process_lock_event\<close>
  exactly once. It fails when the first invocation fails: the identifier is not
  added to the processed set and the second pass invokes the executor again.
\<close>

theorem failed_relay_is_submitted_again:
  "transactionHash lock1 \<notin> processed_transactions (resumed 600) \<and>
   submitted (relay_event (rejecting 712 [lock1]) lock1
               (relay_event (rejecting 712 [lock1]) lock1 (resumed 600))) = [lock1, lock1] \<and>
   length (invocations (transactionHash lock1)
            (relay_event (rejecting 712 [lock1]) lock1
               (relay_event (rejecting 712 [lock1]) lock1 (resumed 600)))) \<noteq> 1"
  by (simp add: relay_event_def process_lock_event_def rejecting_def emitting_def resumed_def
        fresh_def lock1_def invocations_def)

text \<open>
  Claim C2, amended. An event whose identifier is in the processed set is skipped:
  relaying it changes nothing, and no later sequence of iterations invokes
  \<open>process_lock_event\<close> for that identifier again. For an identifier not yet in the set,
  relaying the event twice invokes \<open>process_lock_event\<close> exactly once when the first
  invocation succeeds, and twice when it fails.
\<close>

theorem relay_twice:
  "(transactionHash e \<in> processed_transactions s \<longrightarrow>
      relay_event w e s = s \<and>
      (\<forall>cfg ws. invocations (transactionHash e) (state_of (run_loop cfg ws s)) =
                invocations (transactionHash e) s)) \<and>
   (transactionHash e \<notin> processed_transactions s \<and> sign_mint w (submitted s) e = None \<longrightarrow>
      submitted (relay_event w' e (relay_event w e s)) = submitted s @ [e]) \<and>
   (transactionHash e \<notin> processed_transactions s \<and> sign_mint w (submitted s) e \<noteq> None \<longrightarrow>
      submitted (relay_event w' e (relay_event w e s)) = submitted s @ [e, e])"
proof (intro conjI impI)
  assume "transactionHash e \<in> processed_transactions s"
  then show "relay_event w e s = s" by (rule relay_event_skip)
next
  assume "transactionHash e \<in> processed_transactions s"
  then show "\<forall>cfg ws. invocations (transactionHash e) (state_of (run_loop cfg ws s)) =
                invocations (transactionHash e) s"
    by (simp add: run_loop_keeps)
next
  assume a: "transactionHash e \<notin> processed_transactions s \<and> sign_mint w (submitted s) e = None"
  then have "relay_event w e s = s\<lparr>submitted := submitted s @ [e],
      processed_transactions := insert (transactionHash e) (processed_transactions s)\<rparr>"
    by (simp add: relay_event_success)
  then show "submitted (relay_event w' e (relay_event w e s)) = submitted s @ [e]"
    by (simp add: relay_event_skip)
next
  assume a: "transactionHash e \<notin> processed_transactions s \<and> sign_mint w (submitted s) e \<noteq> None"
  then obtain x where "sign_mint w (submitted s) e = Some x" by auto
  with a have r: "relay_event w e s = s\<lparr>submitted := submitted s @ [e]\<rparr>"
    by (simp add: relay_event_failure)
  from a have "transactionHash e \<notin> processed_transactions (s\<lparr>submitted := submitted s @ [e]\<rparr>)"
    by simp
  from relay_event_cases [of w' e "s\<lparr>submitted := submitted s @ [e]\<rparr>"] this
  show "submitted (relay_event w' e (relay_event w e s)) = submitted s @ [e, e]"
    unfolding r by auto
qed

theorem relay_twice_witness:
  "transactionHash lock1 \<in> processed_transactions ((resumed 600)\<lparr>processed_transactions := {''0xabc''}\<rparr>) \<and>
   invocations (transactionHash lock1)
     (state_of (run_loop cfg0 [emitting 712 [lock1]]
        ((resumed 600)\<lparr>processed_transactions := {''0xabc''}\<rparr>))) = [] \<and>
   transactionHash lock1 \<notin> processed_transactions (resumed 600) \<and>
   sign_mint (emitting 712 [lock1]) (submitted (resumed 600)) lock1 = None \<and>
   submitted (relay_event (emitting 712 [lock1]) lock1
               (relay_event (emitting 712 [lock1]) lock1 (resumed 600))) = [lock1] \<and>
   sign_mint (rejecting 712 [lock1]) (submitted (resumed 600)) lock1 \<noteq> None \<and>
   submitted (relay_event (emitting 712 [lock1]) lock1
               (relay_event (rejecting 712 [lock1]) lock1 (resumed 600))) = [lock1, lock1]"
  using relay_twice [where e = lock1 and s = "(resumed 600)\<lparr>processed_transactions := {''0xabc''}\<rparr>"
                       and w = "emitting 712 [lock1]" and w' = "emitting 712 [lock1]"]
    relay_twice [where e = lock1 and s = "resumed 600"
                       and w = "emitting 712 [lock1]" and w' = "emitting 712 [lock1]"]
    relay_twice [where e = lock1 and s = "resumed 600"
                       and w = "rejecting 712 [lock1]" and w' = "emitting 712 [lock1]"]
  by (simp add: rejecting_def emitting_def resumed_def fresh_def lock1_def invocations_def
      relay_event_def process_lock_event_def iteration_def loop_body_def scan_relay_save_def
      scan_blocks_def save_state_def sleep_def cfg0_def)

section \<open>What the state file holds\<close>

text \<open>
  Claim C8, as stated: every persisted state holds only identifiers of events at or
  below the persisted last processed block. It fails for a negative batch size, which
  the code does not exclude: from a checkpoint at block 652 that holds the identifier
  of an event of block 650, a batch size of -5 and head 812 make the iteration save
  block 647 together with that identifier.
\<close>

theorem negative_batch_size_saves_later_id:
  "reads_up_to (quiet 812) \<and>
   memory_ok ((resumed 652)\<lparr>processed_transactions := {''0xabc''}, submitted := [lock1]\<rparr>) \<and>
   file_ok ((resumed 652)\<lparr>processed_transactions := {''0xabc''}, submitted := [lock1]\<rparr>) \<and>
   blockNumber lock1 = 650 \<and> transactionHash lock1 = ''0xabc'' \<and>
   run_loop (cfg0\<lparr>scan_batch_size := -5\<rparr>) [quiet 812]
       ((resumed 652)\<lparr>processed_transactions := {''0xabc''}, submitted := [lock1]\<rparr>) =
     Inr ((resumed 652)\<lparr>last_processed_block := Some 647,
        processed_transactions := {''0xabc''}, state_file := Some (Some 647, {''0xabc''}),
        scan_calls := [(653, 647)], submitted := [lock1]\<rparr>) \<and>
   \<not> file_ok (state_of (run_loop (cfg0\<lparr>scan_batch_size := -5\<rparr>) [quiet 812]
       ((resumed 652)\<lparr>processed_transactions := {''0xabc''}, submitted := [lock1]\<rparr>)))"
proof -
  have r: "reads_up_to (quiet 812)"
    by (simp add: reads_up_to_def quiet_def)
  have run: "run_loop (cfg0\<lparr>scan_batch_size := -5\<rparr>) [quiet 812]
       ((resumed 652)\<lparr>processed_transactions := {''0xabc''}, submitted := [lock1]\<rparr>) =
     Inr ((resumed 652)\<lparr>last_processed_block := Some 647,
        processed_transactions := {''0xabc''}, state_file := Some (Some 647, {''0xabc''}),
        scan_calls := [(653, 647)], submitted := [lock1]\<rparr>)"
    by (simp add: iteration_def loop_body_def scan_relay_save_def scan_blocks_def save_state_def
        sleep_def quiet_def resumed_def fresh_def cfg0_def)
  from r show ?thesis
    unfolding run
    by (simp add: memory_ok_def file_ok_def checkpoint_ok_def ids_below_def resumed_def
        fresh_def lock1_def)
qed

text \<open>
  Claim C8, amended. When the configured batch size is not negative and the log read
  returns no event after the requested \<open>toBlock\<close>, every state that the checkpoint
  write persists satisfies: each identifier of the saved processed set belongs to an
  event handed to the executor whose block height is at most the saved last
  processed block. It holds after every sequence of iterations that starts in a
  state whose memory and file satisfy it.
\<close>

theorem saved_ids_are_below_saved_block:
  assumes "0 \<le> scan_batch_size cfg" and "\<forall>w\<in>set ws. reads_up_to w"
    and "memory_ok s" and "file_ok s"
  shows "file_ok (state_of (run_loop cfg ws s)) \<and> memory_ok (state_of (run_loop cfg ws s))"
  using assms(2-4)
proof (induction ws arbitrary: s)
  case Nil
  then show ?case by simp
next
  case (Cons w ws)
  then have "reads_up_to w" by simp
  note it = iteration_ok [OF assms(1) this Cons.prems(2,3)]
  show ?case
  proof (cases "iteration cfg w s")
    case (Inl x)
    with it show ?thesis by (simp add: state_of_run_loop_Cons)
  next
    case (Inr s1)
    with it have "memory_ok s1" "file_ok s1" by simp_all
    with Cons.IH [of s1] Cons.prems(1) Inr show ?thesis by (simp add: state_of_run_loop_Cons)
  qed
qed

theorem saved_ids_are_below_saved_block_witness:
  "0 \<le> scan_batch_size cfg0 \<and> reads_up_to (emitting 712 [lock1]) \<and>
   memory_ok (resumed 600) \<and> file_ok (resumed 600) \<and>
   state_file (state_of (run_loop cfg0 [emitting 712 [lock1]] (resumed 600))) =
     Some (Some 700, {''0xabc''}) \<and>
   submitted (state_of (run_loop cfg0 [emitting 712 [lock1]] (resumed 600))) = [lock1] \<and>
   file_ok (state_of (run_loop cfg0 [emitting 712 [lock1]] (resumed 600)))"
proof -
  have b: "0 \<le> scan_batch_size cfg0" by (simp add: cfg0_def)
  have r: "\<forall>w\<in>set [emitting 712 [lock1]]. reads_up_to w"
    by (auto simp: reads_up_to_def emitting_def)
  have m: "memory_ok (resumed 600)"
    by (simp add: memory_ok_def checkpoint_ok_def ids_below_def resumed_def fresh_def)
  have f: "file_ok (resumed 600)"
    by (simp add: file_ok_def resumed_def fresh_def)
  have run: "run_loop cfg0 [emitting 712 [lock1]] (resumed 600) =
     Inr ((resumed 600)\<lparr>last_processed_block := Some 700,
        processed_transactions := {''0xabc''}, state_file := Some (Some 700, {''0xabc''}),
        scan_calls := [(601, 700)], filter_reads := [(601, 700)], submitted := [lock1]\<rparr>)"
    by (simp add: iteration_def loop_body_def scan_relay_save_def scan_blocks_def save_state_def
        sleep_def emitting_def lock1_def resumed_def fresh_def cfg0_def
        relay_event_def process_lock_event_def)
  from saved_ids_are_below_saved_block [OF b r m f] b r m f run show ?thesis
    by simp
qed

end
